theory Spec2Isabelle
  imports Complex_Main "HOL-Library.Multiset"
begin

section \<open>Vehicle comparator (comparateur.ts)\<close>

text \<open>
  The TypeScript type \<^verbatim>\<open>VehicleType\<close> is a union of four string literals; it is an
  enumeration. JavaScript numbers are modelled as exact reals: the catalog and the form
  values are finite decimals, and \<^verbatim>\<open>null\<close> / a missing optional field is \<open>None\<close>.
\<close>

datatype VehicleType =
    UtilitaireThermique
  | UtilitaireElectrique
  | PickupThermique
  | PickupElectrique

record Vehicle =
  v_id :: string
  v_name :: string
  v_type :: VehicleType
  v_charge :: real
  v_volume :: "real option"
  v_longueur :: "real option"

record SearchCriteria =
  c_type :: "VehicleType option"
  c_charge :: "real option"
  c_volume :: "real option"
  c_longueur :: "real option"

definition deliver7 :: Vehicle where
  "deliver7 = \<lparr>v_id = ''deliver7'', v_name = ''Deliver 7'', v_type = UtilitaireThermique,
     v_charge = 1229, v_volume = Some 7.2, v_longueur = Some 2.8\<rparr>"

definition deliver9 :: Vehicle where
  "deliver9 = \<lparr>v_id = ''deliver9'', v_name = ''Deliver 9'', v_type = UtilitaireThermique,
     v_charge = 1450, v_volume = Some 11.5, v_longueur = Some 3.413\<rparr>"

definition t60max :: Vehicle where
  "t60max = \<lparr>v_id = ''t60max'', v_name = ''T60 Max'', v_type = PickupThermique,
     v_charge = 1000, v_volume = Some 0, v_longueur = Some 0\<rparr>"

definition edeliver3 :: Vehicle where
  "edeliver3 = \<lparr>v_id = ''edeliver3'', v_name = ''eDeliver 3'', v_type = UtilitaireElectrique,
     v_charge = 1080, v_volume = Some 6.3, v_longueur = Some 2.77\<rparr>"

definition edeliver5 :: Vehicle where
  "edeliver5 = \<lparr>v_id = ''edeliver5'', v_name = ''eDeliver 5'', v_type = UtilitaireElectrique,
     v_charge = 1265, v_volume = Some 8.7, v_longueur = Some 0\<rparr>"

definition edeliver7 :: Vehicle where
  "edeliver7 = \<lparr>v_id = ''edeliver7'', v_name = ''eDeliver 7'', v_type = UtilitaireElectrique,
     v_charge = 1200, v_volume = Some 8.7, v_longueur = Some 0\<rparr>"

definition edeliver9 :: Vehicle where
  "edeliver9 = \<lparr>v_id = ''edeliver9'', v_name = ''eDeliver 9'', v_type = UtilitaireElectrique,
     v_charge = 1040, v_volume = Some 12.33, v_longueur = Some 0\<rparr>"

definition eterron9 :: Vehicle where
  "eterron9 = \<lparr>v_id = ''eterron9'', v_name = ''eTerron 9'', v_type = PickupElectrique,
     v_charge = 650, v_volume = Some 0, v_longueur = Some 0\<rparr>"

definition t90ev :: Vehicle where
  "t90ev = \<lparr>v_id = ''t90ev'', v_name = ''T90 EV'', v_type = PickupElectrique,
     v_charge = 1000, v_volume = Some 0, v_longueur = Some 0\<rparr>"

text \<open>The catalog, in the order of the source array.\<close>

definition VEHICLES :: "Vehicle list" where
  "VEHICLES = [deliver7, deliver9, t60max, edeliver3, edeliver5, edeliver7, edeliver9,
     eterron9, t90ev]"

text \<open>
  \<^verbatim>\<open>vehicle.volume && vehicle.volume > 0\<close>: an optional field that is present, truthy
  (not zero) and positive.
\<close>

definition present_positive :: "real option \<Rightarrow> bool" where
  "present_positive f = (case f of None \<Rightarrow> False | Some x \<Rightarrow> x \<noteq> 0 \<and> x > 0)"

text \<open>
  \<^verbatim>\<open>calculateScore\<close>: the pair is the running \<^verbatim>\<open>(totalScore, criteriaCount)\<close>, updated by
  the three blocks in the order of the source.
\<close>

definition score_charge :: "Vehicle \<Rightarrow> SearchCriteria \<Rightarrow> real \<times> nat \<Rightarrow> real \<times> nat" where
  "score_charge vehicle criteria acc =
     (case c_charge criteria of
        None \<Rightarrow> acc
      | Some cc \<Rightarrow>
          if v_charge vehicle > 0
          then (fst acc + \<bar>v_charge vehicle - cc\<bar> / 100, snd acc + 1)
          else acc)"

definition score_volume :: "Vehicle \<Rightarrow> SearchCriteria \<Rightarrow> real \<times> nat \<Rightarrow> real \<times> nat" where
  "score_volume vehicle criteria acc =
     (case c_volume criteria of
        None \<Rightarrow> acc
      | Some cv \<Rightarrow>
          if present_positive (v_volume vehicle)
          then (fst acc + \<bar>the (v_volume vehicle) - cv\<bar> * 10, snd acc + 1)
          else acc)"

definition score_longueur :: "Vehicle \<Rightarrow> SearchCriteria \<Rightarrow> real \<times> nat \<Rightarrow> real \<times> nat" where
  "score_longueur vehicle criteria acc =
     (case c_longueur criteria of
        None \<Rightarrow> acc
      | Some cl \<Rightarrow>
          if present_positive (v_longueur vehicle)
          then (fst acc + \<bar>the (v_longueur vehicle) - cl\<bar> * 100, snd acc + 1)
          else acc)"

definition calculateScore :: "Vehicle \<Rightarrow> SearchCriteria \<Rightarrow> real option" where
  "calculateScore vehicle criteria =
     (case c_type criteria of
        None \<Rightarrow> None
      | Some t \<Rightarrow>
          if v_type vehicle \<noteq> t then None
          else
            let acc = score_longueur vehicle criteria
                        (score_volume vehicle criteria
                          (score_charge vehicle criteria (0, 0)))
            in if snd acc = 0 then None else Some (fst acc / real (snd acc)))"

text \<open>
  The \<^verbatim>\<open>for (const vehicle of VEHICLES)\<close> loop of \<^verbatim>\<open>findBestMatch\<close>, with its two
  variables \<^verbatim>\<open>bestVehicle\<close> and \<^verbatim>\<open>bestScore\<close>; the test is
  \<^verbatim>\<open>bestScore === null || score < bestScore\<close>.
\<close>

fun findBestMatch_loop ::
  "SearchCriteria \<Rightarrow> Vehicle list \<Rightarrow> Vehicle option \<Rightarrow> real option \<Rightarrow> Vehicle option" where
  "findBestMatch_loop criteria [] bestVehicle bestScore = bestVehicle"
| "findBestMatch_loop criteria (vehicle # rest) bestVehicle bestScore =
     (case calculateScore vehicle criteria of
        None \<Rightarrow> findBestMatch_loop criteria rest bestVehicle bestScore
      | Some score \<Rightarrow>
          if (case bestScore of None \<Rightarrow> True | Some b \<Rightarrow> score < b)
          then findBestMatch_loop criteria rest (Some vehicle) (Some score)
          else findBestMatch_loop criteria rest bestVehicle bestScore)"

definition findBestMatch :: "SearchCriteria \<Rightarrow> Vehicle option" where
  "findBestMatch criteria =
     (if c_type criteria = None then None
      else findBestMatch_loop criteria VEHICLES None None)"



section \<open>JavaScript strings\<close>

text \<open>
  A JavaScript string is a sequence of UTF-16 code units; \<^verbatim>\<open>length\<close> counts them.
  \<open>js\<close> writes an ASCII literal as such a sequence.
\<close>

type_synonym jsstring = "nat list"

definition js :: "string \<Rightarrow> jsstring" where
  "js s = map of_char s"

text \<open>
  The code units that \<^verbatim>\<open>String.prototype.trim\<close> strips and that \<^verbatim>\<open>\s\<close> matches: the
  WhiteSpace and LineTerminator code points of ECMAScript (tab, LF, VT, FF, CR, space,
  U+00A0, U+1680, U+2000 to U+200A, U+2028, U+2029, U+202F, U+205F, U+3000, U+FEFF).
\<close>

definition is_whitespace :: "nat \<Rightarrow> bool" where
  "is_whitespace u \<longleftrightarrow>
     u \<in> set [9, 10, 11, 12, 13, 32, 160, 5760, 8232, 8233, 8239, 8287, 12288, 65279]
     \<or> (8192 \<le> u \<and> u \<le> 8202)"

definition trim :: "jsstring \<Rightarrow> jsstring" where
  "trim s = rev (dropWhile is_whitespace (rev (dropWhile is_whitespace s)))"

text \<open>\<^verbatim>\<open>\d\<close>: the ASCII digits.\<close>

definition is_digit :: "nat \<Rightarrow> bool" where
  "is_digit u \<longleftrightarrow> 48 \<le> u \<and> u \<le> 57"

section \<open>Address suggestions (map.ts and concessionCta.ts)\<close>

record AddressSuggestion =
  s_id :: jsstring
  place_name :: jsstring
  center :: "real \<times> real"
  s_text :: jsstring









section \<open>The persisted intent (concessionCta.ts)\<close>

text \<open>
  \<^verbatim>\<open>localStorage\<close>: a map from keys to string values. The module uses one key,
  \<^verbatim>\<open>concessionIntent\<close>.
\<close>

type_synonym storage = "string \<Rightarrow> jsstring option"

definition intent_key :: string where
  "intent_key = ''concessionIntent''"

text \<open>
  \<^verbatim>\<open>JSON.stringify\<close> on the two object literals the module writes. The quoting of a
  string value (the platform's QuoteJSONString: surrounding double quotes, escapes) is the
  parameter \<open>quote\<close>.
\<close>

definition stringify_address :: "(jsstring \<Rightarrow> jsstring) \<Rightarrow> jsstring \<Rightarrow> jsstring" where
  "stringify_address quote address =
     js ''{\"type\":\"address\",\"address\":'' @ quote address @ js ''}''"

definition stringify_geolocate :: jsstring where
  "stringify_geolocate = js ''{\"type\":\"geolocate\"}''"

text \<open>
  The state of a page that runs the call-to-action module: the controls found by
  \<^verbatim>\<open>initConcessionCta\<close>, the variables of \<^verbatim>\<open>setupAddressAutocomplete\<close>, the storage, and
  two logs: every value passed to \<^verbatim>\<open>localStorage.setItem\<close> under the intent key, and the
  number of calls of \<^verbatim>\<open>navigateToConcessions\<close>.
\<close>

record cta_state =
  has_searchBtn :: bool
  has_geoBtn :: bool
  input_value :: jsstring
  has_suggestionsContainer :: bool
  currentSuggestions :: "AddressSuggestion list"
  selectedIndex :: int
  cta_storage :: storage
  written :: "jsstring list"
  navigations :: nat

definition setItem_intent :: "jsstring \<Rightarrow> cta_state \<Rightarrow> cta_state" where
  "setItem_intent v st =
     st\<lparr>cta_storage := (cta_storage st)(intent_key \<mapsto> v), written := written st @ [v]\<rparr>"

definition navigateToConcessions :: "cta_state \<Rightarrow> cta_state" where
  "navigateToConcessions st = st\<lparr>navigations := Suc (navigations st)\<rparr>"

text \<open>\<^verbatim>\<open>performSearch\<close>: guarded by \<^verbatim>\<open>if (!address.trim()) return\<close>; writes the address as given.\<close>

definition performSearch :: "(jsstring \<Rightarrow> jsstring) \<Rightarrow> jsstring \<Rightarrow> cta_state \<Rightarrow> cta_state" where
  "performSearch quote address st =
     (if trim address = [] then st
      else navigateToConcessions (setItem_intent (stringify_address quote address) st))"

text \<open>
  The click handler of the search button (registered when the button and the input
  exist; the input exists on this page): writes the trimmed value of the input.
\<close>

definition searchBtn_click :: "(jsstring \<Rightarrow> jsstring) \<Rightarrow> cta_state \<Rightarrow> cta_state" where
  "searchBtn_click quote st =
     (if \<not> has_searchBtn st then st
      else
        let address = trim (input_value st) in
        if address = [] then st
        else navigateToConcessions (setItem_intent (stringify_address quote address) st))"

definition geoBtn_click :: "cta_state \<Rightarrow> cta_state" where
  "geoBtn_click st =
     (if \<not> has_geoBtn st then st
      else navigateToConcessions (setItem_intent stringify_geolocate st))"

datatype key = ArrowDown | ArrowUp | Enter | Escape | OtherKey

text \<open>The \<^verbatim>\<open>keydown\<close> listener of \<^verbatim>\<open>setupAddressAutocomplete\<close>.\<close>

definition keydown_autocomplete :: "(jsstring \<Rightarrow> jsstring) \<Rightarrow> key \<Rightarrow> cta_state \<Rightarrow> cta_state" where
  "keydown_autocomplete quote k st =
     (if \<not> has_suggestionsContainer st \<or> currentSuggestions st = [] then st
      else case k of
        ArrowDown \<Rightarrow>
          st\<lparr>selectedIndex := min (selectedIndex st + 1) (int (length (currentSuggestions st)) - 1)\<rparr>
      | ArrowUp \<Rightarrow> st\<lparr>selectedIndex := max (selectedIndex st - 1) (- 1)\<rparr>
      | Enter \<Rightarrow>
          if 0 \<le> selectedIndex st \<and> selectedIndex st < int (length (currentSuggestions st))
          then performSearch quote
                 (place_name (currentSuggestions st ! nat (selectedIndex st))) st
          else if has_searchBtn st then searchBtn_click quote st
          else st
      | Escape \<Rightarrow> st
      | OtherKey \<Rightarrow> st)"

text \<open>The \<^verbatim>\<open>keydown\<close> listener of \<^verbatim>\<open>initConcessionCta\<close>, registered with the search button.\<close>

definition keydown_init :: "(jsstring \<Rightarrow> jsstring) \<Rightarrow> key \<Rightarrow> cta_state \<Rightarrow> cta_state" where
  "keydown_init quote k st =
     (if has_searchBtn st \<and> k = Enter then searchBtn_click quote st else st)"

text \<open>
  The events of the page. A key press runs both listeners in the order of registration.
  \<open>SuggestionsArrived\<close> is the completion of \<^verbatim>\<open>searchSuggestions\<close>; \<open>ClickSuggestion\<close> is
  a click on a displayed suggestion, whose handler calls \<^verbatim>\<open>performSearch\<close> on its place
  name.
\<close>

datatype cta_event =
    TypeInput jsstring
  | SuggestionsArrived "AddressSuggestion list"
  | KeyDown key
  | ClickSuggestion AddressSuggestion
  | ClickSearch
  | ClickGeolocate

definition cta_step :: "(jsstring \<Rightarrow> jsstring) \<Rightarrow> cta_state \<Rightarrow> cta_event \<Rightarrow> cta_state" where
  "cta_step quote st ev =
     (case ev of
        TypeInput v \<Rightarrow> st\<lparr>input_value := v\<rparr>
      | SuggestionsArrived suggestions \<Rightarrow>
          st\<lparr>currentSuggestions := suggestions, selectedIndex := - 1,
             has_suggestionsContainer := True\<rparr>
      | KeyDown k \<Rightarrow> keydown_init quote k (keydown_autocomplete quote k st)
      | ClickSuggestion suggestion \<Rightarrow> performSearch quote (place_name suggestion) st
      | ClickSearch \<Rightarrow> searchBtn_click quote st
      | ClickGeolocate \<Rightarrow> geoBtn_click st)"

definition cta_run :: "(jsstring \<Rightarrow> jsstring) \<Rightarrow> cta_state \<Rightarrow> cta_event list \<Rightarrow> cta_state" where
  "cta_run quote st evs = foldl (cta_step quote) st evs"

text \<open>
  A quoting function for closed examples: it agrees with the platform on strings that need
  no escape (no double quote, backslash, control character or lone surrogate).
\<close>

definition quote_plain :: "jsstring \<Rightarrow> jsstring" where
  "quote_plain s = 34 # s @ [34]"

definition cta_initial :: cta_state where
  "cta_initial = \<lparr>has_searchBtn = True, has_geoBtn = True, input_value = [],
     has_suggestionsContainer = False, currentSuggestions = [], selectedIndex = - 1,
     cta_storage = Map.empty, written = [], navigations = 0\<rparr>"

section \<open>Consumption of the intent on the map page (map.ts, initMap)\<close>

text \<open>The values \<^verbatim>\<open>JSON.parse\<close> can return.\<close>

datatype json =
    JNull
  | JBool bool
  | JNum real
  | JStr jsstring
  | JArr "json list"
  | JObj "(jsstring \<times> json) list"

datatype js_error = SyntaxError | TypeError

text \<open>
  Reading the property \<^verbatim>\<open>type\<close> or \<^verbatim>\<open>address\<close> of a parsed value: a TypeError on
  \<^verbatim>\<open>null\<close>, the field of an object, and \<^verbatim>\<open>undefined\<close> (\<open>None\<close>) on every other value
  (booleans, numbers, strings and arrays have neither property).
\<close>

fun get_field :: "json \<Rightarrow> jsstring \<Rightarrow> js_error + json option" where
  "get_field JNull k = Inl TypeError"
| "get_field (JObj kvs) k = Inr (map_of kvs k)"
| "get_field (JBool b) k = Inr None"
| "get_field (JNum x) k = Inr None"
| "get_field (JStr s) k = Inr None"
| "get_field (JArr xs) k = Inr None"

text \<open>Truthiness of a property value.\<close>

fun truthy :: "json option \<Rightarrow> bool" where
  "truthy None = False"
| "truthy (Some JNull) = False"
| "truthy (Some (JBool b)) = b"
| "truthy (Some (JNum x)) = (x \<noteq> 0)"
| "truthy (Some (JStr s)) = (s \<noteq> [])"
| "truthy (Some (JArr xs)) = True"
| "truthy (Some (JObj kvs)) = True"

text \<open>What \<^verbatim>\<open>document.querySelector\<close> finds at one attempt.\<close>

record dom =
  has_addressInput :: bool
  has_geoButton :: bool

datatype action =
    DispatchIntentAddress json
  | ClickGeolocation

text \<open>
  The state of the map page during the consumption: the storage, the actions performed
  (the event dispatched, the click on the geolocation button), and a log of the attempts,
  each with the delay in milliseconds, counted from the first call, after which it was
  scheduled.
\<close>

record load_state =
  localStorage :: storage
  actions :: "action list"
  attempts :: "nat list"

definition removeItem_intent :: "load_state \<Rightarrow> load_state" where
  "removeItem_intent st = st\<lparr>localStorage := (localStorage st)(intent_key := None)\<rparr>"

text \<open>
  One run of the body of \<^verbatim>\<open>tryConsume\<close> up to the retry test: an error, the state after
  a successful hand-off (\<open>Some\<close>, the function returns), or \<open>None\<close> when it falls through
  to the retry test.
\<close>

definition attempt :: "json \<Rightarrow> dom \<Rightarrow> load_state \<Rightarrow> js_error + load_state option" where
  "attempt intent d st =
     (case get_field intent (js ''type'') of
        Inl e \<Rightarrow> Inl e
      | Inr ty \<Rightarrow>
          (case get_field intent (js ''address'') of
             Inl e \<Rightarrow> Inl e
           | Inr address \<Rightarrow>
               if ty = Some (JStr (js ''address'')) \<and> truthy address then
                 (if has_addressInput d
                  then Inr (Some (removeItem_intent
                         (st\<lparr>actions := actions st @ [DispatchIntentAddress (the address)]\<rparr>)))
                  else Inr None)
               else if ty = Some (JStr (js ''geolocate'')) then
                 (if has_geoButton d
                  then Inr (Some (removeItem_intent
                         (st\<lparr>actions := actions st @ [ClickGeolocation]\<rparr>)))
                  else Inr None)
               else Inr None))"

text \<open>
  \<^verbatim>\<open>tryConsume(retries)\<close>; \<open>k\<close> counts the calls made before this one, so this call was
  scheduled \<open>150 * k\<close> ms after the first, and \<open>doms k\<close> is the document it sees. An error
  is returned with the number of the call that raised it.
\<close>

function tryConsume ::
  "json \<Rightarrow> (nat \<Rightarrow> dom) \<Rightarrow> nat \<Rightarrow> nat \<Rightarrow> load_state \<Rightarrow> (js_error \<times> nat) + load_state" where
  "tryConsume intent doms k retries st =
     (let st1 = st\<lparr>attempts := attempts st @ [150 * k]\<rparr> in
      case attempt intent (doms k) st1 of
        Inl e \<Rightarrow> Inl (e, k)
      | Inr (Some st2) \<Rightarrow> Inr st2
      | Inr None \<Rightarrow>
          if retries > 0 then tryConsume intent doms (Suc k) (retries - 1) st1
          else Inr st1)"
  by pat_completeness auto
termination
  by (relation "measure (\<lambda>(intent, doms, k, retries, st). retries)") auto

declare tryConsume.simps [simp del]

text \<open>
  The \<^verbatim>\<open>try\<close> block of \<^verbatim>\<open>initMap\<close>. \<open>parse\<close> is \<^verbatim>\<open>JSON.parse\<close> (\<open>None\<close>: it throws a
  SyntaxError). The \<^verbatim>\<open>catch\<close> covers the parse and the first, synchronous call of
  \<^verbatim>\<open>tryConsume\<close>; an error in a later call, made from a timer, would be uncaught.
\<close>

datatype load_result = Completed load_state | Uncaught js_error

definition consumeIntent ::
  "(jsstring \<Rightarrow> json option) \<Rightarrow> (nat \<Rightarrow> dom) \<Rightarrow> load_state \<Rightarrow> load_result" where
  "consumeIntent parse doms st =
     (case localStorage st intent_key of
        None \<Rightarrow> Completed st
      | Some raw \<Rightarrow>
          if raw = [] then Completed st
          else
            (case parse raw of
               None \<Rightarrow> Completed st
             | Some intent \<Rightarrow>
                 (case tryConsume intent doms 0 20 st of
                    Inr st' \<Rightarrow> Completed st'
                  | Inl (e, k) \<Rightarrow>
                      if k = 0 then Completed (st\<lparr>attempts := attempts st @ [0]\<rparr>)
                      else Uncaught e)))"

text \<open>
  A parser for closed examples: it agrees with \<^verbatim>\<open>JSON.parse\<close> on the text of the
  geolocate intent, on the text of the address intent for Paris, and on every text that is
  not JSON.
\<close>

definition parse_known :: "jsstring \<Rightarrow> json option" where
  "parse_known s =
     (if s = stringify_geolocate then Some (JObj [(js ''type'', JStr (js ''geolocate''))])
      else if s = stringify_address quote_plain (js ''Paris'')
      then Some (JObj [(js ''type'', JStr (js ''address'')), (js ''address'', JStr (js ''Paris''))])
      else None)"

definition dom_never :: "nat \<Rightarrow> dom" where
  "dom_never k = \<lparr>has_addressInput = False, has_geoButton = False\<rparr>"

definition dom_ready :: "nat \<Rightarrow> dom" where
  "dom_ready k = \<lparr>has_addressInput = True, has_geoButton = True\<rparr>"

definition dom_after :: "nat \<Rightarrow> nat \<Rightarrow> dom" where
  "dom_after n k = \<lparr>has_addressInput = (n \<le> k), has_geoButton = (n \<le> k)\<rparr>"

definition stored :: "jsstring \<Rightarrow> load_state" where
  "stored raw = \<lparr>localStorage = [intent_key \<mapsto> raw], actions = [], attempts = []\<rparr>"

section \<open>Sorting the cards by distance (map.ts)\<close>

text \<open>
  The number \<^verbatim>\<open>extractDistanceValue\<close> returns: a finite value parsed from the text, or
  \<^verbatim>\<open>Infinity\<close> for a distance that is unknown.
\<close>

datatype distance = Finite real | Infinity

text \<open>
  A card of the list: the identity of its element and the \<^verbatim>\<open>textContent\<close> of the distance
  element that \<^verbatim>\<open>findDistanceElement\<close> finds in it (\<open>None\<close> when it finds none).
\<close>

record concession_card =
  element :: nat
  distance_text :: "jsstring option"

text \<open>
  The regular expression \<^verbatim>\<open>/(\d+(?:\.\d+)?)\s*km/i\<close>. \<open>km_follows\<close> is the tail
  \<^verbatim>\<open>\s*km\<close> (k, K, m, M are the only code units that match under the flag \<^verbatim>\<open>i\<close>);
  \<open>match_km_at\<close> is a match that starts at the head of the string and gives the capture
  group; \<open>match_km\<close> is the search for the leftmost match. The digits and the fraction are
  matched greedily, and no shorter choice can succeed, since the code unit after a shorter
  run of digits is a digit.
\<close>

definition km_follows :: "jsstring \<Rightarrow> bool" where
  "km_follows s =
     (case dropWhile is_whitespace s of
        a # b # rest \<Rightarrow> (a = 107 \<or> a = 75) \<and> (b = 109 \<or> b = 77)
      | _ \<Rightarrow> False)"

definition match_km_at :: "jsstring \<Rightarrow> jsstring option" where
  "match_km_at s =
     (let ds = takeWhile is_digit s; r1 = dropWhile is_digit s in
      if ds = [] then None
      else
        (case r1 of
           [] \<Rightarrow> None
         | u # r2 \<Rightarrow>
             if u = 46 then
               (let fs = takeWhile is_digit r2; r3 = dropWhile is_digit r2 in
                if fs \<noteq> [] \<and> km_follows r3 then Some (ds @ 46 # fs) else None)
             else if km_follows r1 then Some ds
             else None))"

fun match_km :: "jsstring \<Rightarrow> jsstring option" where
  "match_km [] = None"
| "match_km (u # s) =
     (case match_km_at (u # s) of
        Some m \<Rightarrow> Some m
      | None \<Rightarrow> match_km s)"

text \<open>
  \<^verbatim>\<open>parseFloat\<close> on the capture group, which is digits with an optional fraction: its
  decimal value. A JavaScript number is the nearest double, so two texts whose values round
  to the same double compare equal there, and a value beyond the range of doubles is
  \<^verbatim>\<open>Infinity\<close>; the model keeps the exact value.
\<close>

definition digits_value :: "jsstring \<Rightarrow> nat" where
  "digits_value ds = foldl (\<lambda>n u. 10 * n + (u - 48)) 0 ds"

definition parseFloat_decimal :: "jsstring \<Rightarrow> real" where
  "parseFloat_decimal m =
     (let ds = takeWhile is_digit m; r = dropWhile is_digit m in
      case r of
        [] \<Rightarrow> real (digits_value ds)
      | u # fs \<Rightarrow> real (digits_value ds) + real (digits_value fs) / 10 ^ length fs)"

definition extractDistanceValue :: "jsstring option \<Rightarrow> distance" where
  "extractDistanceValue distanceElement =
     (case distanceElement of
        None \<Rightarrow> Infinity
      | Some textContent \<Rightarrow>
          if textContent = [] then Infinity
          else
            (case match_km (trim textContent) of
               Some m \<Rightarrow> Finite (parseFloat_decimal m)
             | None \<Rightarrow> Infinity))"

text \<open>The entries of \<^verbatim>\<open>cardsWithDistance\<close> and the comparison function given to \<^verbatim>\<open>sort\<close>.\<close>

record ConcessionWithDistance =
  cwd_element :: concession_card
  cwd_distance :: distance
  cwd_distanceText :: jsstring

definition withDistance :: "concession_card \<Rightarrow> ConcessionWithDistance" where
  "withDistance c =
     \<lparr>cwd_element = c,
      cwd_distance = extractDistanceValue (distance_text c),
      cwd_distanceText =
        (case distance_text c of
           None \<Rightarrow> js ''N/A''
         | Some t \<Rightarrow> if t = [] then js ''N/A'' else t)\<rparr>"

definition compareDistance :: "ConcessionWithDistance \<Rightarrow> ConcessionWithDistance \<Rightarrow> real" where
  "compareDistance a b =
     (case (cwd_distance a, cwd_distance b) of
        (Infinity, Infinity) \<Rightarrow> 0
      | (Infinity, Finite y) \<Rightarrow> 1
      | (Finite x, Infinity) \<Rightarrow> - 1
      | (Finite x, Finite y) \<Rightarrow> x - y)"

text \<open>
  \<^verbatim>\<open>Array.prototype.sort\<close> with a comparison function: a stable sort (ECMAScript 2019),
  here by insertion. An element goes before the first element it does not compare greater
  than, so elements that compare equal keep their order.
\<close>

fun insert_sorted :: "('a \<Rightarrow> 'a \<Rightarrow> real) \<Rightarrow> 'a \<Rightarrow> 'a list \<Rightarrow> 'a list" where
  "insert_sorted cmp x [] = [x]"
| "insert_sorted cmp x (y # ys) =
     (if cmp x y \<le> 0 then x # y # ys else y # insert_sorted cmp x ys)"

definition array_sort :: "('a \<Rightarrow> 'a \<Rightarrow> real) \<Rightarrow> 'a list \<Rightarrow> 'a list" where
  "array_sort cmp xs = foldr (insert_sorted cmp) xs []"

text \<open>
  \<^verbatim>\<open>sortConcessionsByDistanceImmediate\<close> on the cards of the container, in document
  order; the result is their order after the cards were appended again. Without a
  container the document has no card, which is the empty list here.
\<close>

definition sortConcessionsByDistanceImmediate :: "concession_card list \<Rightarrow> concession_card list" where
  "sortConcessionsByDistanceImmediate cards =
     (if length cards = 0 then cards
      else map cwd_element (array_sort compareDistance (map withDistance cards)))"

definition known_distance :: "concession_card \<Rightarrow> bool" where
  "known_distance c \<longleftrightarrow> extractDistanceValue (distance_text c) \<noteq> Infinity"

definition km_value :: "concession_card \<Rightarrow> real" where
  "km_value c = (case extractDistanceValue (distance_text c) of Finite x \<Rightarrow> x | Infinity \<Rightarrow> 0)"

section \<open>The debounce and the batch recomputation (map.ts)\<close>

text \<open>
  The state the sort works on: the cards, the module variable \<^verbatim>\<open>sortDebounceTimeout\<close>,
  the timers set by \<^verbatim>\<open>sortConcessionsByDistance\<close> that are pending (identifier and due
  time in ms), the next timer identifier, the current time, and a log of the times at which
  \<^verbatim>\<open>sortConcessionsByDistanceImmediate\<close> ran.
\<close>

record sort_state =
  cards :: "concession_card list"
  sortDebounceTimeout :: "nat option"
  pending_timers :: "(nat \<times> nat) list"
  next_timer_id :: nat
  clock :: nat
  sort_passes :: "nat list"

definition run_sort_pass :: "sort_state \<Rightarrow> sort_state" where
  "run_sort_pass st =
     st\<lparr>cards := sortConcessionsByDistanceImmediate (cards st),
        sort_passes := sort_passes st @ [clock st]\<rparr>"

definition clearTimeout :: "nat \<Rightarrow> sort_state \<Rightarrow> sort_state" where
  "clearTimeout t st = st\<lparr>pending_timers := filter (\<lambda>(i, due). i \<noteq> t) (pending_timers st)\<rparr>"

text \<open>
  \<^verbatim>\<open>sortConcessionsByDistance(immediate)\<close>. A timer identifier is truthy when it is not
  zero.
\<close>

definition sortConcessionsByDistance :: "bool \<Rightarrow> sort_state \<Rightarrow> sort_state" where
  "sortConcessionsByDistance immediate st =
     (if \<not> immediate then
        let st1 = (case sortDebounceTimeout st of
                     None \<Rightarrow> st
                   | Some t \<Rightarrow> if t \<noteq> 0 then clearTimeout t st else st);
            t' = next_timer_id st1
        in st1\<lparr>pending_timers := pending_timers st1 @ [(t', clock st1 + 500)],
               next_timer_id := Suc t',
               sortDebounceTimeout := Some t'\<rparr>
      else run_sort_pass st)"

text \<open>
  \<^verbatim>\<open>updateAllDistances\<close>. The outcome of the route request of a card is given by
  \<open>routes\<close>, by element: the coordinates are missing (\<^verbatim>\<open>continue\<close>), a route was found
  (with the text of \<^verbatim>\<open>(route.distance / 1000).toFixed(1)\<close>), or the request failed. The
  function is taken at the time it completes.
\<close>

datatype route_outcome = CoordinatesMissing | RouteFound jsstring | RouteFailed

definition set_loading :: "concession_card \<Rightarrow> concession_card" where
  "set_loading c =
     (case distance_text c of
        None \<Rightarrow> c
      | Some t \<Rightarrow> c\<lparr>distance_text := Some (js ''Calcul'')\<rparr>)"

definition update_distance :: "route_outcome \<Rightarrow> concession_card \<Rightarrow> concession_card" where
  "update_distance r c =
     (case r of
        CoordinatesMissing \<Rightarrow> c
      | RouteFound d \<Rightarrow>
          (case distance_text c of
             None \<Rightarrow> c
           | Some t \<Rightarrow> c\<lparr>distance_text := Some (d @ js '' KM'')\<rparr>)
      | RouteFailed \<Rightarrow>
          (case distance_text c of
             None \<Rightarrow> c
           | Some t \<Rightarrow> c\<lparr>distance_text := Some (js ''-- KM'')\<rparr>))"

definition updateAllDistances :: "(nat \<Rightarrow> route_outcome) \<Rightarrow> sort_state \<Rightarrow> sort_state" where
  "updateAllDistances routes st =
     sortConcessionsByDistance True
       (st\<lparr>cards := map (\<lambda>c. update_distance (routes (element c)) (set_loading c)) (cards st)\<rparr>)"

text \<open>Batch recomputations that complete at the times \<open>ts\<close>, one after the other.\<close>

definition complete_batches :: "(nat \<Rightarrow> route_outcome) \<Rightarrow> nat list \<Rightarrow> sort_state \<Rightarrow> sort_state" where
  "complete_batches routes ts st =
     foldl (\<lambda>s t. updateAllDistances routes (s\<lparr>clock := t\<rparr>)) st ts"

section \<open>Inputs of the examples and auxiliary predicates\<close>

definition criteria_ut_1300_9 :: SearchCriteria where
  "criteria_ut_1300_9 = \<lparr>c_type = Some UtilitaireThermique, c_charge = Some 1300,
     c_volume = Some 9, c_longueur = None\<rparr>"

definition criteria_pe_650 :: SearchCriteria where
  "criteria_pe_650 = \<lparr>c_type = Some PickupElectrique, c_charge = Some 650,
     c_volume = None, c_longueur = None\<rparr>"

text \<open>
  The vehicle at position \<open>i\<close> of \<open>xs\<close> has the score \<open>s\<close>, every scored vehicle before it
  has a greater score, and no scored vehicle of \<open>xs\<close> has a smaller one.
\<close>

definition is_best_at :: "SearchCriteria \<Rightarrow> Vehicle list \<Rightarrow> nat \<Rightarrow> real \<Rightarrow> bool" where
  "is_best_at c xs i s \<longleftrightarrow>
     i < length xs \<and> calculateScore (xs ! i) c = Some s
     \<and> (\<forall>j<i. \<forall>u. calculateScore (xs ! j) c = Some u \<longrightarrow> s < u)
     \<and> (\<forall>j<length xs. \<forall>u. calculateScore (xs ! j) c = Some u \<longrightarrow> s \<le> u)"

text \<open>
  The document has what the intent needs: the address input for an address intent with a
  truthy address, the geolocation button for a geolocate intent. This is the condition
  under which the body of \<^verbatim>\<open>tryConsume\<close> hands the intent off and returns.
\<close>

definition target_present :: "json \<Rightarrow> dom \<Rightarrow> bool" where
  "target_present intent d \<longleftrightarrow>
     (case (get_field intent (js ''type''), get_field intent (js ''address'')) of
        (Inr ty, Inr address) \<Rightarrow>
          if ty = Some (JStr (js ''address'')) \<and> truthy address then has_addressInput d
          else if ty = Some (JStr (js ''geolocate'')) then has_geoButton d
          else False
      | _ \<Rightarrow> False)"

definition cards_example :: "concession_card list" where
  "cards_example =
     [\<lparr>element = 1, distance_text = Some (js ''-- KM'')\<rparr>,
      \<lparr>element = 2, distance_text = Some (js ''12.5 KM'')\<rparr>,
      \<lparr>element = 3, distance_text = None\<rparr>,
      \<lparr>element = 4, distance_text = Some (js ''3.0 KM'')\<rparr>]"

text \<open>The values the call-to-action module may write under the intent key.\<close>

definition valid_written :: "(jsstring \<Rightarrow> jsstring) \<Rightarrow> jsstring \<Rightarrow> bool" where
  "valid_written quote v \<longleftrightarrow>
     v = stringify_geolocate \<or> (\<exists>a. trim a \<noteq> [] \<and> v = stringify_address quote a)"

definition cta_events_example :: "cta_event list" where
  "cta_events_example = [TypeInput (js '' Paris ''), ClickSearch, ClickGeolocate]"


definition routes_example :: "nat \<Rightarrow> route_outcome" where
  "routes_example e =
     (if e = 1 then RouteFound (js ''12.5'')
      else if e = 2 then RouteFailed
      else RouteFound (js ''3.0''))"

definition sort_state_example :: sort_state where
  "sort_state_example =
     \<lparr>cards = [\<lparr>element = 1, distance_text = Some (js ''Calcul'')\<rparr>,
               \<lparr>element = 2, distance_text = Some (js ''Calcul'')\<rparr>,
               \<lparr>element = 3, distance_text = Some (js ''Calcul'')\<rparr>],
      sortDebounceTimeout = None, pending_timers = [], next_timer_id = 1, clock = 0,
      sort_passes = []\<rparr>"

section \<open>Evaluation rules\<close>

lemmas vehicle_defs =
  deliver7_def deliver9_def t60max_def edeliver3_def edeliver5_def edeliver7_def
  edeliver9_def eterron9_def t90ev_def

lemmas score_defs =
  calculateScore_def score_charge_def score_volume_def score_longueur_def
  present_positive_def

lemmas distance_defs =
  extractDistanceValue_def match_km_at_def km_follows_def trim_def is_whitespace_def
  is_digit_def parseFloat_decimal_def digits_value_def js_def

section \<open>Concrete catalog queries\<close>

text \<open>
  C6. For the criteria (pickup electrique, payload 650 kg, no volume, no length),
  \<^verbatim>\<open>findBestMatch\<close> returns the catalog vehicle with id \<^verbatim>\<open>eterron9\<close>, and the score of
  that vehicle for these criteria is 0.
\<close>

theorem findBestMatch_pickup_electrique_650:
  "findBestMatch criteria_pe_650 = Some eterron9
   \<and> v_id eterron9 = ''eterron9''
   \<and> calculateScore eterron9 criteria_pe_650 = Some 0"
  by (simp add: findBestMatch_def VEHICLES_def vehicle_defs score_defs criteria_pe_650_def)

text \<open>
  C1, as stated: for the criteria (utilitaire thermique, payload 1300 kg, volume 9, no
  length) \<^verbatim>\<open>findBestMatch\<close> returns the vehicle with id \<^verbatim>\<open>deliver9\<close>. It does not: the
  identifier of the result is not \<^verbatim>\<open>deliver9\<close>.
\<close>

theorem findBestMatch_ut_1300_9_not_deliver9:
  "map_option v_id (findBestMatch criteria_ut_1300_9) \<noteq> Some ''deliver9''"
  by (simp add: findBestMatch_def VEHICLES_def vehicle_defs score_defs criteria_ut_1300_9_def)

text \<open>
  C1, amended: for these criteria \<^verbatim>\<open>findBestMatch\<close> returns the vehicle with id
  \<^verbatim>\<open>deliver7\<close>; among the 9 vehicles of the catalog it has the lowest score, 9.355
  (payload |1229 - 1300| / 100 = 0.71, volume |7.2 - 9| * 10 = 18), where \<^verbatim>\<open>deliver9\<close>
  scores 13.25 (payload 1.5, volume 25).
\<close>

theorem findBestMatch_ut_1300_9_deliver7:
  "findBestMatch criteria_ut_1300_9 = Some deliver7
   \<and> v_id deliver7 = ''deliver7''
   \<and> length VEHICLES = 9
   \<and> calculateScore deliver7 criteria_ut_1300_9 = Some 9.355
   \<and> calculateScore deliver9 criteria_ut_1300_9 = Some 13.25"
  by (simp add: findBestMatch_def VEHICLES_def vehicle_defs score_defs criteria_ut_1300_9_def)

section \<open>The score\<close>



section \<open>The best match\<close>

lemma is_best_at_Cons_None:
  "calculateScore x c = None \<Longrightarrow> is_best_at c xs i s \<Longrightarrow> is_best_at c (x # xs) (Suc i) s"
  unfolding is_best_at_def by (auto simp: less_Suc_eq_0_disj)

lemma is_best_at_Cons_greater:
  "calculateScore x c = Some sx \<Longrightarrow> s < sx \<Longrightarrow> is_best_at c xs i s
     \<Longrightarrow> is_best_at c (x # xs) (Suc i) s"
  unfolding is_best_at_def by (auto simp: less_Suc_eq_0_disj)

lemma is_best_at_Cons_0:
  "calculateScore x c = Some sx
     \<Longrightarrow> \<forall>j<length xs. \<forall>u. calculateScore (xs ! j) c = Some u \<longrightarrow> sx \<le> u
     \<Longrightarrow> is_best_at c (x # xs) 0 sx"
  unfolding is_best_at_def by (auto simp: less_Suc_eq_0_disj)

text \<open>
  The loop entered with a best vehicle \<open>b\<close> of score \<open>s\<close>: it keeps \<open>b\<close> when nothing in the
  rest scores strictly less, and otherwise returns the first of the best of the rest.
\<close>

lemma findBestMatch_loop_Some:
  "findBestMatch_loop c xs (Some b) (Some s) = Some v \<Longrightarrow>
     (v = b \<and> (\<forall>j<length xs. \<forall>u. calculateScore (xs ! j) c = Some u \<longrightarrow> s \<le> u))
   \<or> (\<exists>i t. xs ! i = v \<and> t < s \<and> is_best_at c xs i t)"
proof (induction xs arbitrary: b s)
  case Nil
  then show ?case by simp
next
  case (Cons x xs)
  show ?case
  proof (cases "calculateScore x c")
    case None
    with Cons.prems have "findBestMatch_loop c xs (Some b) (Some s) = Some v" by simp
    from Cons.IH[OF this] show ?thesis
    proof
      assume "v = b \<and> (\<forall>j<length xs. \<forall>u. calculateScore (xs ! j) c = Some u \<longrightarrow> s \<le> u)"
      with None show ?thesis by (auto simp: less_Suc_eq_0_disj)
    next
      assume "\<exists>i t. xs ! i = v \<and> t < s \<and> is_best_at c xs i t"
      then obtain i t where i: "xs ! i = v" "t < s" "is_best_at c xs i t" by blast
      from is_best_at_Cons_None[OF None i(3)] i(1,2) show ?thesis
        by (intro disjI2 exI[of _ "Suc i"] exI[of _ t]) simp
    qed
  next
    case (Some sx)
    show ?thesis
    proof (cases "sx < s")
      case True
      with Some Cons.prems have "findBestMatch_loop c xs (Some x) (Some sx) = Some v" by simp
      from Cons.IH[OF this] show ?thesis
      proof
        assume a: "v = x \<and> (\<forall>j<length xs. \<forall>u. calculateScore (xs ! j) c = Some u \<longrightarrow> sx \<le> u)"
        then have "is_best_at c (x # xs) 0 sx" using is_best_at_Cons_0[OF Some] by blast
        with a True show ?thesis
          by (intro disjI2 exI[of _ 0] exI[of _ sx]) simp
      next
        assume "\<exists>i t. xs ! i = v \<and> t < sx \<and> is_best_at c xs i t"
        then obtain i t where i: "xs ! i = v" "t < sx" "is_best_at c xs i t" by blast
        from is_best_at_Cons_greater[OF Some i(2,3)] i(1,2) True show ?thesis
          by (intro disjI2 exI[of _ "Suc i"] exI[of _ t]) simp
      qed
    next
      case False
      with Some Cons.prems have "findBestMatch_loop c xs (Some b) (Some s) = Some v" by simp
      from Cons.IH[OF this] show ?thesis
      proof
        assume "v = b \<and> (\<forall>j<length xs. \<forall>u. calculateScore (xs ! j) c = Some u \<longrightarrow> s \<le> u)"
        with Some False show ?thesis by (auto simp: less_Suc_eq_0_disj)
      next
        assume "\<exists>i t. xs ! i = v \<and> t < s \<and> is_best_at c xs i t"
        then obtain i t where i: "xs ! i = v" "t < s" "is_best_at c xs i t" by blast
        from i(2) False have "t < sx" by simp
        from is_best_at_Cons_greater[OF Some this i(3)] i(1,2) show ?thesis
          by (intro disjI2 exI[of _ "Suc i"] exI[of _ t]) simp
      qed
    qed
  qed
qed

lemma findBestMatch_loop_None:
  "findBestMatch_loop c xs None None = Some v \<Longrightarrow> \<exists>i s. xs ! i = v \<and> is_best_at c xs i s"
proof (induction xs)
  case Nil
  then show ?case by simp
next
  case (Cons x xs)
  show ?case
  proof (cases "calculateScore x c")
    case None
    with Cons.prems have "findBestMatch_loop c xs None None = Some v" by simp
    from Cons.IH[OF this] obtain i s where i: "xs ! i = v" "is_best_at c xs i s" by blast
    from is_best_at_Cons_None[OF None i(2)] i(1) show ?thesis
      by (intro exI[of _ "Suc i"] exI[of _ s]) simp
  next
    case (Some sx)
    with Cons.prems have "findBestMatch_loop c xs (Some x) (Some sx) = Some v" by simp
    from findBestMatch_loop_Some[OF this] show ?thesis
    proof
      assume a: "v = x \<and> (\<forall>j<length xs. \<forall>u. calculateScore (xs ! j) c = Some u \<longrightarrow> sx \<le> u)"
      then have "is_best_at c (x # xs) 0 sx" using is_best_at_Cons_0[OF Some] by blast
      with a show ?thesis by (intro exI[of _ 0] exI[of _ sx]) simp
    next
      assume "\<exists>i t. xs ! i = v \<and> t < sx \<and> is_best_at c xs i t"
      then obtain i t where i: "xs ! i = v" "t < sx" "is_best_at c xs i t" by blast
      from is_best_at_Cons_greater[OF Some i(2,3)] i(1) show ?thesis
        by (intro exI[of _ "Suc i"] exI[of _ t]) simp
    qed
  qed
qed

lemma calculateScore_Some_type:
  "calculateScore v c = Some s \<Longrightarrow> c_type c = Some (v_type v)"
  by (auto simp: calculateScore_def split: option.splits if_splits)

text \<open>
  C9. Whenever \<^verbatim>\<open>findBestMatch\<close> returns a vehicle, the category of the vehicle is the
  category of the criteria, its score is not null and is at most the score of every catalog
  vehicle with a score, and it is the first vehicle of the catalog with that minimal score:
  every scored vehicle before it in the catalog has a strictly greater score.
\<close>

theorem findBestMatch_minimal_first:
  assumes "findBestMatch c = Some v"
  shows "c_type c = Some (v_type v)
     \<and> (\<exists>s i. calculateScore v c = Some s
          \<and> i < length VEHICLES \<and> VEHICLES ! i = v
          \<and> (\<forall>j<length VEHICLES. \<forall>u. calculateScore (VEHICLES ! j) c = Some u \<longrightarrow> s \<le> u)
          \<and> (\<forall>j<i. \<forall>u. calculateScore (VEHICLES ! j) c = Some u \<longrightarrow> s < u))"
proof -
  from assms have "findBestMatch_loop c VEHICLES None None = Some v"
    by (simp add: findBestMatch_def split: if_splits)
  from findBestMatch_loop_None[OF this]
  obtain i s where i: "VEHICLES ! i = v" "is_best_at c VEHICLES i s" by blast
  from i have sc: "calculateScore v c = Some s" by (simp add: is_best_at_def)
  from calculateScore_Some_type[OF sc] have "c_type c = Some (v_type v)" .
  moreover from i sc have "calculateScore v c = Some s
          \<and> i < length VEHICLES \<and> VEHICLES ! i = v
          \<and> (\<forall>j<length VEHICLES. \<forall>u. calculateScore (VEHICLES ! j) c = Some u \<longrightarrow> s \<le> u)
          \<and> (\<forall>j<i. \<forall>u. calculateScore (VEHICLES ! j) c = Some u \<longrightarrow> s < u)"
    by (simp add: is_best_at_def)
  ultimately show ?thesis by blast
qed

theorem findBestMatch_minimal_first_witness:
  "findBestMatch criteria_pe_650 = Some eterron9
   \<and> c_type criteria_pe_650 = Some (v_type eterron9)
   \<and> (\<exists>s i. calculateScore eterron9 criteria_pe_650 = Some s
          \<and> i < length VEHICLES \<and> VEHICLES ! i = eterron9)"
proof -
  have h: "findBestMatch criteria_pe_650 = Some eterron9"
    by (simp add: findBestMatch_def VEHICLES_def vehicle_defs score_defs criteria_pe_650_def)
  from findBestMatch_minimal_first [OF h] h show ?thesis by blast
qed

section \<open>The order of the cards after the sort\<close>

lemma compareDistance_le_iff:
  "compareDistance a b \<le> 0 \<longleftrightarrow>
     (case cwd_distance a of
        Infinity \<Rightarrow> cwd_distance b = Infinity
      | Finite x \<Rightarrow> (case cwd_distance b of Infinity \<Rightarrow> True | Finite y \<Rightarrow> x \<le> y))"
  by (simp add: compareDistance_def split: distance.splits)

lemma compareDistance_total: "compareDistance a b \<le> 0 \<or> compareDistance b a \<le> 0"
  by (auto simp: compareDistance_le_iff split: distance.splits)

lemma compareDistance_trans:
  "compareDistance a b \<le> 0 \<Longrightarrow> compareDistance b c \<le> 0 \<Longrightarrow> compareDistance a c \<le> 0"
  by (auto simp: compareDistance_le_iff split: distance.splits)

lemma mset_insert_sorted: "mset (insert_sorted cmp x ys) = add_mset x (mset ys)"
  by (induction ys) auto

lemma mset_array_sort: "mset (array_sort cmp xs) = mset xs"
  unfolding array_sort_def by (induction xs) (auto simp: mset_insert_sorted)

lemma set_insert_sorted: "set (insert_sorted cmp x ys) = insert x (set ys)"
  by (induction ys) auto

lemma sorted_insert_sorted:
  "sorted_wrt (\<lambda>a b. compareDistance a b \<le> 0) ys \<Longrightarrow>
   sorted_wrt (\<lambda>a b. compareDistance a b \<le> 0) (insert_sorted compareDistance x ys)"
proof (induction ys)
  case Nil
  then show ?case by simp
next
  case (Cons y ys)
  show ?case
  proof (cases "compareDistance x y \<le> 0")
    case True
    with Cons.prems show ?thesis
      by (auto intro: compareDistance_trans)
  next
    case False
    then have "compareDistance y x \<le> 0" using compareDistance_total[of x y] by simp
    with False Cons show ?thesis
      by (auto simp: set_insert_sorted)
  qed
qed

lemma sorted_array_sort:
  "sorted_wrt (\<lambda>a b. compareDistance a b \<le> 0) (array_sort compareDistance xs)"
  unfolding array_sort_def by (induction xs) (auto intro: sorted_insert_sorted)

text \<open>
  Stability on the unknown distances: an entry of unknown distance is inserted before the
  first entry of unknown distance, an entry of known distance before or between the others.
\<close>

lemma filter_unknown_insert_sorted:
  "filter (\<lambda>c. cwd_distance c = Infinity) (insert_sorted compareDistance x ys) =
     (if cwd_distance x = Infinity then x # filter (\<lambda>c. cwd_distance c = Infinity) ys
      else filter (\<lambda>c. cwd_distance c = Infinity) ys)"
  by (induction ys) (auto simp: compareDistance_le_iff split: distance.splits)

lemma filter_unknown_array_sort:
  "filter (\<lambda>c. cwd_distance c = Infinity) (array_sort compareDistance xs) =
   filter (\<lambda>c. cwd_distance c = Infinity) xs"
  unfolding array_sort_def by (induction xs) (auto simp: filter_unknown_insert_sorted)

lemma withDistance_sel [simp]:
  "cwd_element (withDistance c) = c"
  "cwd_distance (withDistance c) = extractDistanceValue (distance_text c)"
  by (simp_all add: withDistance_def)

lemma sort_immediate_eq:
  "sortConcessionsByDistanceImmediate cs =
     map cwd_element (array_sort compareDistance (map withDistance cs))"
  by (simp add: sortConcessionsByDistanceImmediate_def array_sort_def)

lemma withDistance_sort_immediate:
  "map withDistance (sortConcessionsByDistanceImmediate cs) =
     array_sort compareDistance (map withDistance cs)"
proof -
  have "set (array_sort compareDistance (map withDistance cs)) = withDistance ` set cs"
    using mset_array_sort[of compareDistance "map withDistance cs"]
    by (metis list.set_map mset_eq_setD)
  then have "\<forall>w\<in>set (array_sort compareDistance (map withDistance cs)).
      withDistance (cwd_element w) = w"
    by auto
  then show ?thesis by (simp add: sort_immediate_eq map_idI)
qed

lemma mset_sort_immediate: "mset (sortConcessionsByDistanceImmediate cs) = mset cs"
proof -
  have "mset (sortConcessionsByDistanceImmediate cs)
      = image_mset cwd_element (mset (array_sort compareDistance (map withDistance cs)))"
    by (simp add: sort_immediate_eq)
  also have "\<dots> = image_mset cwd_element (mset (map withDistance cs))"
    by (simp only: mset_array_sort)
  also have "\<dots> = mset cs"
    by (simp add: image_mset.compositionality comp_def)
  finally show ?thesis .
qed

lemma sorted_sort_immediate:
  "sorted_wrt (\<lambda>a b. compareDistance (withDistance a) (withDistance b) \<le> 0)
     (sortConcessionsByDistanceImmediate cs)"
proof -
  have "sorted_wrt (\<lambda>a b. compareDistance a b \<le> 0)
          (map withDistance (sortConcessionsByDistanceImmediate cs))"
    using sorted_array_sort[of "map withDistance cs"]
    by (simp only: withDistance_sort_immediate)
  then show ?thesis by (simp add: sorted_wrt_map)
qed

lemma filter_unknown_sort_immediate:
  "filter (\<lambda>c. \<not> known_distance c) (sortConcessionsByDistanceImmediate cs)
     = filter (\<lambda>c. \<not> known_distance c) cs"
proof -
  let ?P = "\<lambda>w. cwd_distance w = Infinity"
  have unk: "(\<lambda>c. \<not> known_distance c) = ?P \<circ> withDistance"
    by (auto simp: known_distance_def)
  have unmap: "map cwd_element (filter ?P (map withDistance xs)) = filter (?P \<circ> withDistance) xs"
    for xs by (induction xs) auto
  have "filter (?P \<circ> withDistance) (sortConcessionsByDistanceImmediate cs)
      = map cwd_element (filter ?P (map withDistance (sortConcessionsByDistanceImmediate cs)))"
    by (simp only: unmap)
  also have "\<dots> = map cwd_element (filter ?P (array_sort compareDistance (map withDistance cs)))"
    by (simp only: withDistance_sort_immediate)
  also have "\<dots> = map cwd_element (filter ?P (map withDistance cs))"
    by (simp only: filter_unknown_array_sort)
  also have "\<dots> = filter (?P \<circ> withDistance) cs"
    by (rule unmap)
  finally show ?thesis by (simp only: unk)
qed

lemma compareDistance_known:
  "compareDistance (withDistance a) (withDistance b) \<le> 0 \<Longrightarrow> known_distance b \<Longrightarrow>
     known_distance a \<and> km_value a \<le> km_value b"
  by (auto simp: compareDistance_le_iff known_distance_def km_value_def split: distance.splits)

lemma extractDistanceValue_examples:
  "extractDistanceValue (Some (js ''-- KM'')) = Infinity"
  "extractDistanceValue (Some (js ''12.5 KM'')) = Finite 12.5"
  "extractDistanceValue (Some (js ''3.0 KM'')) = Finite 3"
  "extractDistanceValue (Some (js ''Calcul'')) = Infinity"
  "extractDistanceValue None = Infinity"
  by (simp_all add: distance_defs)

lemma sort_cards_example:
  "sortConcessionsByDistanceImmediate cards_example =
     [\<lparr>element = 4, distance_text = Some (js ''3.0 KM'')\<rparr>,
      \<lparr>element = 2, distance_text = Some (js ''12.5 KM'')\<rparr>,
      \<lparr>element = 1, distance_text = Some (js ''-- KM'')\<rparr>,
      \<lparr>element = 3, distance_text = None\<rparr>]"
  by (simp add: sortConcessionsByDistanceImmediate_def array_sort_def cards_example_def
      withDistance_def compareDistance_def extractDistanceValue_examples)

text \<open>
  C5. For every list of cards, the sort returns the same cards in an order where the
  cards with a known numeric distance are in ascending order of that distance, every card
  of known distance is strictly before every card of unknown distance (a failed, loading
  or unparsed text, or no distance element), and the cards of unknown distance keep the
  order they had in the input.
\<close>

theorem sort_by_distance_order:
  "mset (sortConcessionsByDistanceImmediate cs) = mset cs
   \<and> (\<forall>i j. i < j \<and> j < length (sortConcessionsByDistanceImmediate cs)
         \<and> known_distance (sortConcessionsByDistanceImmediate cs ! i)
         \<and> known_distance (sortConcessionsByDistanceImmediate cs ! j)
       \<longrightarrow> km_value (sortConcessionsByDistanceImmediate cs ! i)
             \<le> km_value (sortConcessionsByDistanceImmediate cs ! j))
   \<and> (\<forall>i j. i < length (sortConcessionsByDistanceImmediate cs)
         \<and> j < length (sortConcessionsByDistanceImmediate cs)
         \<and> known_distance (sortConcessionsByDistanceImmediate cs ! i)
         \<and> \<not> known_distance (sortConcessionsByDistanceImmediate cs ! j)
       \<longrightarrow> i < j)
   \<and> filter (\<lambda>c. \<not> known_distance c) (sortConcessionsByDistanceImmediate cs)
       = filter (\<lambda>c. \<not> known_distance c) cs"
proof -
  let ?r = "sortConcessionsByDistanceImmediate cs"
  have ord: "compareDistance (withDistance (?r ! i)) (withDistance (?r ! j)) \<le> 0"
    if "i < j" "j < length ?r" for i j
    using sorted_sort_immediate[of cs] that by (simp add: sorted_wrt_iff_nth_less)
  have a: "km_value (?r ! i) \<le> km_value (?r ! j)"
    if "i < j" "j < length ?r" "known_distance (?r ! j)" for i j
    using compareDistance_known[OF ord[OF that(1,2)] that(3)] by simp
  have b: "i < j"
    if "i < length ?r" "j < length ?r" "known_distance (?r ! i)" "\<not> known_distance (?r ! j)"
    for i j
  proof (rule ccontr)
    assume "\<not> i < j"
    moreover from that(3,4) have "i \<noteq> j" by auto
    ultimately have "j < i" by simp
    from compareDistance_known[OF ord[OF this that(1)] that(3)] that(4) show False by simp
  qed
  have c: "mset ?r = mset cs" by (rule mset_sort_immediate)
  have d: "filter (\<lambda>c. \<not> known_distance c) ?r = filter (\<lambda>c. \<not> known_distance c) cs"
    by (rule filter_unknown_sort_immediate)
  from a b c d show ?thesis by blast
qed

theorem sort_by_distance_order_witness:
  "map element (sortConcessionsByDistanceImmediate cards_example) = [4, 2, 1, 3]
   \<and> known_distance (sortConcessionsByDistanceImmediate cards_example ! 0)
   \<and> known_distance (sortConcessionsByDistanceImmediate cards_example ! 1)
   \<and> \<not> known_distance (sortConcessionsByDistanceImmediate cards_example ! 2)
   \<and> km_value (sortConcessionsByDistanceImmediate cards_example ! 0)
        \<le> km_value (sortConcessionsByDistanceImmediate cards_example ! 1)
   \<and> (1::nat) < 2
   \<and> filter (\<lambda>c. \<not> known_distance c) (sortConcessionsByDistanceImmediate cards_example)
        = filter (\<lambda>c. \<not> known_distance c) cards_example"
proof -
  have k: "known_distance (sortConcessionsByDistanceImmediate cards_example ! 0)"
    "known_distance (sortConcessionsByDistanceImmediate cards_example ! 1)"
    "\<not> known_distance (sortConcessionsByDistanceImmediate cards_example ! 2)"
    "length (sortConcessionsByDistanceImmediate cards_example) = 4"
    "map element (sortConcessionsByDistanceImmediate cards_example) = [4, 2, 1, 3]"
    by (simp_all add: sort_cards_example known_distance_def extractDistanceValue_examples)
  from sort_by_distance_order [of cards_example] k show ?thesis
    by (auto simp del: One_nat_def)
qed

section \<open>The category set of a suggestion request\<close>




section \<open>The retry loop of the intent consumption\<close>

lemma attempt_JNull: "attempt JNull d st = Inl TypeError"
  by (simp add: attempt_def)

lemma get_field_not_null: "intent \<noteq> JNull \<Longrightarrow> \<exists>v. get_field intent k = Inr v"
  by (cases intent) auto

lemma attempt_not_null:
  "intent \<noteq> JNull \<Longrightarrow>
     attempt intent d st =
       (if target_present intent d
        then Inr (Some (removeItem_intent (st\<lparr>actions := actions st @
               [if get_field intent (js ''type'') = Inr (Some (JStr (js ''address'')))
                   \<and> truthy (projr (get_field intent (js ''address'')))
                then DispatchIntentAddress (the (projr (get_field intent (js ''address''))))
                else ClickGeolocation]\<rparr>)))
        else Inr None)"
  using get_field_not_null[of intent "js ''type''"] get_field_not_null[of intent "js ''address''"]
  by (auto simp: attempt_def target_present_def)

lemma attempt_Some_attempts:
  "attempt intent d st = Inr (Some st') \<Longrightarrow> attempts st' = attempts st"
  by (auto simp: attempt_def removeItem_intent_def split: sum.splits if_splits)

lemma tryConsume_JNull: "tryConsume JNull doms k n st = Inl (TypeError, k)"
  by (subst tryConsume.simps) (simp add: attempt_JNull)

lemma tryConsume_not_null:
  "intent \<noteq> JNull \<Longrightarrow> \<exists>st'. tryConsume intent doms k n st = Inr st'"
proof (induction n arbitrary: k st)
  case 0
  then show ?case
    by (subst tryConsume.simps) (simp add: attempt_not_null Let_def)
next
  case (Suc n)
  from Suc.IH[OF Suc.prems] show ?case
    by (subst tryConsume.simps) (simp add: attempt_not_null[OF Suc.prems] Let_def)
qed

lemma tryConsume_error_at: "tryConsume intent doms k n st = Inl (e, j) \<Longrightarrow> j = k"
proof (cases "intent = JNull")
  case True
  assume "tryConsume intent doms k n st = Inl (e, j)"
  with True show ?thesis by (simp add: tryConsume_JNull)
next
  case False
  assume "tryConsume intent doms k n st = Inl (e, j)"
  with tryConsume_not_null[OF False, of doms k n st] show ?thesis by auto
qed

lemma upt_attempts: "m \<le> n \<Longrightarrow> [150 * k] @ map (\<lambda>i. 150 * i) [Suc k..<Suc (Suc k + m)] = map (\<lambda>i. 150 * i) [k..<Suc (k + Suc m)]"
  by (simp add: upt_conv_Cons)

lemma tryConsume_attempts:
  "tryConsume intent doms k n st = Inr st' \<Longrightarrow>
     \<exists>m\<le>n. attempts st' = attempts st @ map (\<lambda>i. 150 * i) [k..<Suc (k + m)]"
proof (induction n arbitrary: k st)
  case 0
  then show ?case
    by (subst (asm) tryConsume.simps)
       (auto simp: Let_def split: sum.splits option.splits dest!: attempt_Some_attempts)
next
  case (Suc n)
  let ?st1 = "st\<lparr>attempts := attempts st @ [150 * k]\<rparr>"
  show ?case
  proof (cases "attempt intent (doms k) ?st1")
    case (Inl e)
    with Suc.prems show ?thesis by (subst (asm) tryConsume.simps) (simp add: Let_def)
  next
    case (Inr r)
    show ?thesis
    proof (cases r)
      case None
      with Inr Suc.prems have "tryConsume intent doms (Suc k) n ?st1 = Inr st'"
        by (subst (asm) tryConsume.simps) (simp add: Let_def)
      from Suc.IH[OF this] obtain m where m: "m \<le> n"
        "attempts st' = attempts ?st1 @ map (\<lambda>i. 150 * i) [Suc k..<Suc (Suc k + m)]" by blast
      then have "attempts st' = attempts st @ map (\<lambda>i. 150 * i) [k..<Suc (k + Suc m)]"
        by (simp add: upt_conv_Cons)
      with m(1) show ?thesis by (intro exI[of _ "Suc m"]) simp
    next
      case (Some st2)
      with Inr Suc.prems have "st' = st2"
        by (subst (asm) tryConsume.simps) (simp add: Let_def)
      with Inr Some have "attempts st' = attempts ?st1" by (auto dest: attempt_Some_attempts)
      then show ?thesis by (intro exI[of _ 0]) simp
    qed
  qed
qed

text \<open>Target absent at every attempt: all retries are used and nothing else changes.\<close>

lemma tryConsume_absent:
  "intent \<noteq> JNull \<Longrightarrow> \<forall>i. k \<le> i \<and> i \<le> k + n \<longrightarrow> \<not> target_present intent (doms i) \<Longrightarrow>
     tryConsume intent doms k n st
       = Inr (st\<lparr>attempts := attempts st @ map (\<lambda>i. 150 * i) [k..<Suc (k + n)]\<rparr>)"
proof (induction n arbitrary: k st)
  case 0
  then show ?case
    by (subst tryConsume.simps) (simp add: attempt_not_null Let_def)
next
  case (Suc n)
  let ?st1 = "st\<lparr>attempts := attempts st @ [150 * k]\<rparr>"
  have "\<forall>i. Suc k \<le> i \<and> i \<le> Suc k + n \<longrightarrow> \<not> target_present intent (doms i)"
    using Suc.prems(2) by auto
  from Suc.IH[OF Suc.prems(1) this, of ?st1]
  have "tryConsume intent doms (Suc k) n ?st1
      = Inr (st\<lparr>attempts := attempts st @ map (\<lambda>i. 150 * i) [k..<Suc (k + Suc n)]\<rparr>)"
    by (simp add: upt_conv_Cons)
  moreover have "\<not> target_present intent (doms k)" using Suc.prems(2) by auto
  ultimately show ?case
    by (subst tryConsume.simps) (simp add: attempt_not_null[OF Suc.prems(1)] Let_def)
qed

text \<open>
  C8. The consumption of a pending intent on the load of the map page is a bounded retry
  loop. It always completes, without an uncaught error, after at most 21 calls of
  \<^verbatim>\<open>tryConsume\<close> (the first and at most 20 retries), the call number \<open>i\<close> being scheduled
  \<open>150 * i\<close> ms after the first. When the document never has what the intent needs, the 21
  calls are made and then nothing more: the state is unchanged but for the log of the
  calls (no action, the intent still stored).
\<close>

theorem consumeIntent_bounded_retry:
  "(\<exists>st' n. consumeIntent parse doms st = Completed st' \<and> n \<le> 21
       \<and> attempts st' = attempts st @ map (\<lambda>i. 150 * i) [0..<n])
   \<and> (localStorage st intent_key = Some raw \<and> raw \<noteq> [] \<and> parse raw = Some intent
        \<and> intent \<noteq> JNull \<and> (\<forall>i\<le>20. \<not> target_present intent (doms i))
      \<longrightarrow> consumeIntent parse doms st
            = Completed (st\<lparr>attempts := attempts st @ map (\<lambda>i. 150 * i) [0..<21]\<rparr>))"
proof
  show "\<exists>st' n. consumeIntent parse doms st = Completed st' \<and> n \<le> 21
       \<and> attempts st' = attempts st @ map (\<lambda>i. 150 * i) [0..<n]"
  proof (cases "localStorage st intent_key")
    case None
    then have "consumeIntent parse doms st = Completed st" by (simp add: consumeIntent_def)
    then show ?thesis by (intro exI[of _ st] exI[of _ 0]) simp
  next
    case (Some raw)
    show ?thesis
    proof (cases "raw = [] \<or> parse raw = None")
      case True
      with Some have "consumeIntent parse doms st = Completed st"
        by (auto simp: consumeIntent_def)
      then show ?thesis by (intro exI[of _ st] exI[of _ 0]) simp
    next
      case False
      then obtain intent where p: "raw \<noteq> []" "parse raw = Some intent" by auto
      show ?thesis
      proof (cases "tryConsume intent doms 0 20 st")
        case (Inl a)
        obtain e j where a: "a = (e, j)" by (cases a)
        with Inl tryConsume_error_at[of intent doms 0 20 st e j] have "j = 0" by simp
        with Inl a Some p have "consumeIntent parse doms st
            = Completed (st\<lparr>attempts := attempts st @ [0]\<rparr>)"
          by (simp add: consumeIntent_def)
        then show ?thesis
          by (intro exI[of _ "st\<lparr>attempts := attempts st @ [0]\<rparr>"] exI[of _ 1]) simp
      next
        case (Inr st')
        from tryConsume_attempts[OF Inr] obtain m where
          m: "m \<le> 20" "attempts st' = attempts st @ map (\<lambda>i. 150 * i) [0..<Suc m]" by auto
        from Inr Some p have "consumeIntent parse doms st = Completed st'"
          by (simp add: consumeIntent_def)
        with m show ?thesis by (intro exI[of _ st'] exI[of _ "Suc m"]) simp
      qed
    qed
  qed
next
  show "localStorage st intent_key = Some raw \<and> raw \<noteq> [] \<and> parse raw = Some intent
        \<and> intent \<noteq> JNull \<and> (\<forall>i\<le>20. \<not> target_present intent (doms i))
      \<longrightarrow> consumeIntent parse doms st
            = Completed (st\<lparr>attempts := attempts st @ map (\<lambda>i. 150 * i) [0..<21]\<rparr>)"
  proof
    assume h: "localStorage st intent_key = Some raw \<and> raw \<noteq> [] \<and> parse raw = Some intent
        \<and> intent \<noteq> JNull \<and> (\<forall>i\<le>20. \<not> target_present intent (doms i))"
    then have "\<forall>i. 0 \<le> i \<and> i \<le> 0 + 20 \<longrightarrow> \<not> target_present intent (doms i)" by simp
    with h tryConsume_absent[of intent 0 20 doms st]
    have "tryConsume intent doms 0 20 st
       = Inr (st\<lparr>attempts := attempts st @ map (\<lambda>i. 150 * i) [0..<21]\<rparr>)"
      by simp
    with h show "consumeIntent parse doms st
            = Completed (st\<lparr>attempts := attempts st @ map (\<lambda>i. 150 * i) [0..<21]\<rparr>)"
      by (simp add: consumeIntent_def)
  qed
qed

theorem consumeIntent_bounded_retry_witness:
  "localStorage (stored stringify_geolocate) intent_key = Some stringify_geolocate
   \<and> stringify_geolocate \<noteq> []
   \<and> parse_known stringify_geolocate = Some (JObj [(js ''type'', JStr (js ''geolocate''))])
   \<and> \<not> target_present (JObj [(js ''type'', JStr (js ''geolocate''))]) (dom_never 0)
   \<and> \<not> target_present (JObj [(js ''type'', JStr (js ''geolocate''))]) (dom_never 20)
   \<and> consumeIntent parse_known dom_never (stored stringify_geolocate)
       = Completed ((stored stringify_geolocate)\<lparr>attempts := map (\<lambda>i. 150 * i) [0..<21]\<rparr>)"
proof -
  have h: "localStorage (stored stringify_geolocate) intent_key = Some stringify_geolocate
   \<and> stringify_geolocate \<noteq> []
   \<and> parse_known stringify_geolocate = Some (JObj [(js ''type'', JStr (js ''geolocate''))])
   \<and> JObj [(js ''type'', JStr (js ''geolocate''))] \<noteq> JNull
   \<and> (\<forall>i\<le>20. \<not> target_present (JObj [(js ''type'', JStr (js ''geolocate''))]) (dom_never i))"
    by (simp add: stored_def parse_known_def stringify_geolocate_def js_def target_present_def
        dom_never_def)
  from consumeIntent_bounded_retry [of parse_known dom_never "stored stringify_geolocate"
      stringify_geolocate "JObj [(js ''type'', JStr (js ''geolocate''))]"] h
  have "consumeIntent parse_known dom_never (stored stringify_geolocate)
       = Completed ((stored stringify_geolocate)\<lparr>attempts :=
           attempts (stored stringify_geolocate) @ map (\<lambda>i. 150 * i) [0..<21]\<rparr>)"
    by blast
  then have "consumeIntent parse_known dom_never (stored stringify_geolocate)
       = Completed ((stored stringify_geolocate)\<lparr>attempts := map (\<lambda>i. 150 * i) [0..<21]\<rparr>)"
    by (simp add: stored_def)
  with h show ?thesis by simp
qed

section \<open>A stored value that is not JSON\<close>

lemma parse_known_bad: "parse_known (js ''{bad'') = None"
  by (simp add: parse_known_def js_def stringify_geolocate_def stringify_address_def
      quote_plain_def)

text \<open>
  C2, as stated: when the stored value is malformed JSON, the read on the load of the map
  page returns without an intent and leaves the key absent. The key is not cleared: with
  the stored text \<^verbatim>\<open>{bad\<close>, which does not parse, the state after the read is the state
  before it, and the key still holds the text.
\<close>

theorem malformed_intent_not_cleared:
  "parse_known (js ''{bad'') = None
   \<and> localStorage (stored (js ''{bad'')) intent_key = Some (js ''{bad'')
   \<and> consumeIntent parse_known dom_ready (stored (js ''{bad'')) = Completed (stored (js ''{bad''))"
  by (simp add: consumeIntent_def stored_def parse_known_bad)

text \<open>
  C2, amended: for every stored value that fails to parse (malformed JSON), the read on
  the load of the map page does not throw and consumes no intent (no call of
  \<^verbatim>\<open>tryConsume\<close>, no event, no click), and it leaves the storage as it was: the corrupt
  value stays under the key.
\<close>

theorem malformed_intent_kept:
  assumes "localStorage st intent_key = Some raw" and "parse raw = None"
  shows "consumeIntent parse doms st = Completed st"
  using assms by (simp add: consumeIntent_def)

theorem malformed_intent_kept_witness:
  "localStorage (stored (js ''not json'')) intent_key = Some (js ''not json'')
   \<and> parse_known (js ''not json'') = None
   \<and> consumeIntent parse_known dom_never (stored (js ''not json''))
        = Completed (stored (js ''not json''))"
proof -
  have a: "localStorage (stored (js ''not json'')) intent_key = Some (js ''not json'')"
    by (simp add: stored_def)
  have b: "parse_known (js ''not json'') = None"
    by (simp add: parse_known_def js_def stringify_geolocate_def stringify_address_def
      quote_plain_def)
  from malformed_intent_kept [where parse = parse_known and doms = dom_never, OF a b] a b
  show ?thesis by simp
qed

section \<open>The values written by the call-to-action module\<close>

lemma trim_head: "trim s \<noteq> [] \<Longrightarrow> \<not> is_whitespace (hd (trim s))"
proof -
  assume ne: "trim s \<noteq> []"
  let ?t = "dropWhile is_whitespace s"
  let ?u = "dropWhile is_whitespace (rev ?t)"
  have tr: "trim s = rev ?u" by (simp add: trim_def)
  from ne tr have une: "?u \<noteq> []" by simp
  have tne: "?t \<noteq> []"
  proof
    assume "?t = []"
    then have "?u = []" by (simp only: rev.simps dropWhile.simps)
    with une show False by simp
  qed
  have "hd (rev ?u) = last ?u" using une by (simp add: hd_rev)
  also have "\<dots> = last (rev ?t)"
  proof -
    have "rev ?t = takeWhile is_whitespace (rev ?t) @ ?u" by simp
    then show ?thesis using une by (metis last_appendR)
  qed
  also have "\<dots> = hd ?t" using tne by (simp add: last_rev)
  finally have "hd (trim s) = hd ?t" by (simp add: tr)
  moreover have "\<not> is_whitespace (hd ?t)" using tne by (rule hd_dropWhile)
  ultimately show ?thesis by simp
qed

lemma trim_last: "trim s \<noteq> [] \<Longrightarrow> \<not> is_whitespace (last (trim s))"
proof -
  assume ne: "trim s \<noteq> []"
  let ?u = "dropWhile is_whitespace (rev (dropWhile is_whitespace s))"
  have tr: "trim s = rev ?u" by (simp add: trim_def)
  from ne tr have une: "?u \<noteq> []" by simp
  then have "\<not> is_whitespace (hd ?u)" by (rule hd_dropWhile)
  moreover have "last (trim s) = hd ?u" using une by (simp add: tr last_rev)
  ultimately show ?thesis by simp
qed

lemma dropWhile_id: "xs \<noteq> [] \<Longrightarrow> \<not> P (hd xs) \<Longrightarrow> dropWhile P xs = xs"
  by (cases xs) auto

lemma trim_trim: "trim (trim s) = trim s"
proof (cases "trim s = []")
  case True
  have "trim [] = []" by (simp add: trim_def)
  with True show ?thesis by simp
next
  case False
  let ?t = "trim s"
  have a: "dropWhile is_whitespace ?t = ?t"
    using False trim_head[OF False] by (rule dropWhile_id)
  have "rev ?t \<noteq> []" using False by simp
  moreover have "\<not> is_whitespace (hd (rev ?t))"
    using False trim_last[OF False] by (simp add: hd_rev)
  ultimately have b: "dropWhile is_whitespace (rev ?t) = rev ?t" by (rule dropWhile_id)
  have "trim ?t = rev (dropWhile is_whitespace (rev (dropWhile is_whitespace ?t)))"
    by (simp only: trim_def)
  also have "\<dots> = ?t" by (simp only: a b rev_rev_ident)
  finally show ?thesis .
qed

lemma performSearch_written:
  "set (written (performSearch quote a st)) \<subseteq> set (written st) \<union> Collect (valid_written quote)"
  by (auto simp: performSearch_def navigateToConcessions_def setItem_intent_def valid_written_def)

lemma searchBtn_click_written:
  "set (written (searchBtn_click quote st)) \<subseteq> set (written st) \<union> Collect (valid_written quote)"
proof -
  have "valid_written quote (stringify_address quote (trim (input_value st)))"
    if "trim (input_value st) \<noteq> []"
    unfolding valid_written_def using that trim_trim[of "input_value st"]
    by (intro disjI2 exI[of _ "trim (input_value st)"]) simp
  then show ?thesis
    by (auto simp: searchBtn_click_def navigateToConcessions_def setItem_intent_def Let_def)
qed

lemma geoBtn_click_written:
  "set (written (geoBtn_click st)) \<subseteq> set (written st) \<union> Collect (valid_written quote)"
  by (auto simp: geoBtn_click_def navigateToConcessions_def setItem_intent_def valid_written_def)

lemma keydown_autocomplete_written:
  "set (written (keydown_autocomplete quote k st)) \<subseteq> set (written st) \<union> Collect (valid_written quote)"
  using performSearch_written[of quote _ st] searchBtn_click_written[of quote st]
  by (cases k) (auto simp: keydown_autocomplete_def)

lemma keydown_init_written:
  "set (written (keydown_init quote k st)) \<subseteq> set (written st) \<union> Collect (valid_written quote)"
  using searchBtn_click_written[of quote st]
  by (auto simp: keydown_init_def)

lemma cta_step_written:
  "set (written (cta_step quote st ev)) \<subseteq> set (written st) \<union> Collect (valid_written quote)"
proof (cases ev)
  case (KeyDown k)
  have "set (written (keydown_init quote k (keydown_autocomplete quote k st)))
     \<subseteq> set (written (keydown_autocomplete quote k st)) \<union> Collect (valid_written quote)"
    by (rule keydown_init_written)
  also have "\<dots> \<subseteq> set (written st) \<union> Collect (valid_written quote)"
    using keydown_autocomplete_written[of quote k st] by blast
  finally show ?thesis using KeyDown by (simp add: cta_step_def)
next
  case (ClickSuggestion x)
  then show ?thesis using performSearch_written[of quote "place_name x" st]
    by (simp add: cta_step_def)
next
  case ClickSearch
  then show ?thesis using searchBtn_click_written[of quote st] by (simp add: cta_step_def)
next
  case ClickGeolocate
  then show ?thesis using geoBtn_click_written[of st quote] by (simp add: cta_step_def)
qed (auto simp: cta_step_def)

lemma cta_run_written:
  "set (written (cta_run quote st evs)) \<subseteq> set (written st) \<union> Collect (valid_written quote)"
  unfolding cta_run_def
proof (induction evs arbitrary: st)
  case Nil
  then show ?case by simp
next
  case (Cons ev evs)
  have "set (written (foldl (cta_step quote) (cta_step quote st ev) evs))
      \<subseteq> set (written (cta_step quote st ev)) \<union> Collect (valid_written quote)"
    by (rule Cons.IH)
  with cta_step_written[of quote st ev] show ?case by auto
qed

text \<open>
  C10. Every value that the call-to-action module writes under the intent key, in any
  sequence of events of the page from any state, is the JSON text of the geolocate intent
  or the JSON text of an address intent whose address is not empty and not made of
  whitespace only (its trimmed form is not empty).
\<close>

theorem cta_writes_valid:
  assumes "v \<in> set (written (cta_run quote st evs))" and "v \<notin> set (written st)"
  shows "v = stringify_geolocate \<or> (\<exists>a. trim a \<noteq> [] \<and> v = stringify_address quote a)"
proof -
  from assms cta_run_written[of quote st evs] have "valid_written quote v" by blast
  then show ?thesis by (simp add: valid_written_def)
qed

theorem cta_writes_valid_witness:
  "written (cta_run quote_plain cta_initial cta_events_example)
     = [stringify_address quote_plain (js ''Paris''), stringify_geolocate]
   \<and> stringify_address quote_plain (js ''Paris'')
        \<in> set (written (cta_run quote_plain cta_initial cta_events_example))
   \<and> stringify_address quote_plain (js ''Paris'') \<notin> set (written cta_initial)
   \<and> stringify_address quote_plain (js ''Paris'') \<noteq> stringify_geolocate
   \<and> (\<exists>a. trim a \<noteq> [] \<and>
          stringify_address quote_plain (js ''Paris'') = stringify_address quote_plain a)"
proof -
  have t: "trim (js '' Paris '') = js ''Paris''"
    by (simp add: trim_def js_def is_whitespace_def)
  have ne: "js ''Paris'' \<noteq> []"
    by (simp add: js_def)
  have w: "written (cta_run quote_plain cta_initial cta_events_example)
     = [stringify_address quote_plain (js ''Paris''), stringify_geolocate]"
    by (simp add: cta_run_def cta_events_example_def cta_step_def cta_initial_def
        searchBtn_click_def geoBtn_click_def navigateToConcessions_def setItem_intent_def
        Let_def t ne)
  have a: "stringify_address quote_plain (js ''Paris'')
        \<in> set (written (cta_run quote_plain cta_initial cta_events_example))"
    by (simp add: w)
  have b: "stringify_address quote_plain (js ''Paris'') \<notin> set (written cta_initial)"
    by (simp add: cta_initial_def)
  have d: "stringify_address quote_plain (js ''Paris'') \<noteq> stringify_geolocate"
    by (simp add: stringify_address_def stringify_geolocate_def quote_plain_def js_def)
  from cta_writes_valid [OF a b] d w a b show ?thesis by blast
qed

section \<open>The reorder after a batch recomputation\<close>

lemma updateAllDistances_pass:
  "sort_passes (updateAllDistances r st) = sort_passes st @ [clock st]
   \<and> pending_timers (updateAllDistances r st) = pending_timers st
   \<and> sortDebounceTimeout (updateAllDistances r st) = sortDebounceTimeout st
   \<and> clock (updateAllDistances r st) = clock st"
  by (simp add: updateAllDistances_def sortConcessionsByDistance_def run_sort_pass_def)

text \<open>
  The debounced path, \<^verbatim>\<open>sortConcessionsByDistance(false)\<close>, runs no pass itself: it cancels
  the timer it set before and sets one timer, due 500 ms later.
\<close>

lemma sortConcessionsByDistance_debounced:
  "sort_passes (sortConcessionsByDistance False st) = sort_passes st
   \<and> cards (sortConcessionsByDistance False st) = cards st
   \<and> sortDebounceTimeout (sortConcessionsByDistance False st) = Some (next_timer_id st)
   \<and> (next_timer_id st, clock st + 500) \<in> set (pending_timers (sortConcessionsByDistance False st))
   \<and> (\<forall>t. sortDebounceTimeout st = Some t \<and> t \<noteq> 0 \<and> t \<noteq> next_timer_id st
        \<longrightarrow> t \<notin> fst ` set (pending_timers (sortConcessionsByDistance False st)))"
  by (auto simp: sortConcessionsByDistance_def clearTimeout_def Let_def split: option.splits)

text \<open>
  C3, as stated: the reorder after a completed batch recomputation goes through the 500 ms
  debounce, so that completions within 500 ms of each other give exactly one reorder pass.
  They do not: two recomputations that complete at 1000 ms and 1100 ms run two passes, one
  at each completion, and no timer is pending.
\<close>

theorem two_completions_two_passes:
  "sort_passes (complete_batches routes_example [1000, 1100] sort_state_example) = [1000, 1100]
   \<and> pending_timers (complete_batches routes_example [1000, 1100] sort_state_example) = []"
  by (simp add: complete_batches_def updateAllDistances_pass sort_state_example_def)

text \<open>
  C3, amended: every completed batch distance recomputation runs the reorder pass at once,
  at its completion, without the 500 ms debounce (\<^verbatim>\<open>updateAllDistances\<close> calls
  \<^verbatim>\<open>sortConcessionsByDistance(true)\<close>): recomputations that complete at the times \<open>ts\<close> run
  one pass each, at these times, and set or cancel no timer.
\<close>

theorem batch_completion_sorts_immediately:
  "sort_passes (complete_batches r ts st) = sort_passes st @ ts
   \<and> pending_timers (complete_batches r ts st) = pending_timers st
   \<and> sortDebounceTimeout (complete_batches r ts st) = sortDebounceTimeout st"
  unfolding complete_batches_def
  by (induction ts arbitrary: st) (simp_all add: updateAllDistances_pass)

end
